theory Spec2Isabelle
  imports Main "HOL-Library.Sublist" "HOL-Library.List_Lexorder" "HOL-Library.Char_ord"
begin

section \<open>Values of the model\<close>

text \<open>
  Package \<open>view\<close> (file \<open>view.go\<close>) walks a directory, parses every file whose
  extension matches into one \<open>html/template\<close> set and renders from that set.
  Go errors are opaque values; a runtime panic is an outcome of its own, so that a
  function that panics does not count as one that returned.
\<close>

datatype error =
    IOError string
  | TemplateError string
  | Undefined string
  | Incomplete string

datatype fault = NilPointerDereference | SliceBoundsOutOfRange

datatype 'a outcome = Returns 'a | Panics fault

text \<open>
  The statements of \<open>view.go\<close> with an effect outside the \<open>Views\<close> value are recorded,
  in program order, as events: \<open>log.Println\<close>, \<open>ioutil.ReadFile\<close>, the call of
  \<open>Parse\<close> (with the template name), \<open>v.mu.Lock()\<close>, \<open>v.mu.Unlock()\<close>, and the loads and
  stores of the two fields the mutex is meant to guard.
\<close>

datatype event =
    Println error
  | ReadFileCall string
  | ParseCall string
  | Lock
  | Unlock
  | LoadReload
  | StoreReload bool
  | LoadTmpls
  | StoreTmpls

section \<open>Package strings\<close>

text \<open>
  Go strings are byte strings; the cutsets used by \<open>view.go\<close> are ASCII, for which
  \<open>strings.TrimLeft\<close> and \<open>strings.TrimRight\<close> are byte loops from the left and from the
  right end.
\<close>

fun TrimLeft :: "string \<Rightarrow> string \<Rightarrow> string" where
  "TrimLeft [] cutset = []"
| "TrimLeft (c # s) cutset = (if c \<in> set cutset then TrimLeft s cutset else c # s)"

definition TrimRight :: "string \<Rightarrow> string \<Rightarrow> string" where
  "TrimRight s cutset = rev (TrimLeft (rev s) cutset)"

definition Trim :: "string \<Rightarrow> string \<Rightarrow> string" where
  "Trim s cutset = TrimLeft (TrimRight s cutset) cutset"

text \<open>\<open>strings.Index\<close>: the index of the first instance of \<open>substr\<close>, \<open>None\<close> for Go's -1.\<close>

fun Index :: "string \<Rightarrow> string \<Rightarrow> nat option" where
  "Index [] substr = (if substr = [] then Some 0 else None)"
| "Index (c # s) substr =
     (if prefix substr (c # s) then Some 0 else map_option Suc (Index s substr))"

text \<open>
  \<open>strings.Replace(s, old, new, 1)\<close>: \<open>s\<close> itself when \<open>old = new\<close> or \<open>old\<close> does not
  occur, else the text before the first instance, \<open>new\<close>, and the text after it.
\<close>

definition Replace1 :: "string \<Rightarrow> string \<Rightarrow> string \<Rightarrow> string" where
  "Replace1 s old new =
     (if old = new then s
      else case Index s old of
             None \<Rightarrow> s
           | Some j \<Rightarrow> take j s @ new @ drop (j + length old) s)"

section \<open>Package path/filepath\<close>

text \<open>
  \<open>filepath.Ext\<close> scans from the end of the path up to the last separator and returns
  the suffix that starts at the first dot it meets, the empty string if there is none.
\<close>

fun ext_scan :: "string \<Rightarrow> string \<Rightarrow> string" where
  "ext_scan [] acc = []"
| "ext_scan (c # r) acc =
     (if c = CHR ''/'' then []
      else if c = CHR ''.'' then c # acc
      else ext_scan r (c # acc))"

definition Ext :: "string \<Rightarrow> string" where
  "Ext p = ext_scan (rev p) []"

text \<open>
  \<open>filepath.Clean\<close>: empty and \<open>.\<close> elements go, an inner \<open>..\<close> removes the element
  before it, a \<open>..\<close> at the start of a rooted path goes, and the empty result is \<open>.\<close>.
\<close>

fun split_slash :: "string \<Rightarrow> string list" where
  "split_slash [] = [[]]"
| "split_slash (c # s) =
     (if c = CHR ''/'' then [] # split_slash s
      else case split_slash s of [] \<Rightarrow> [[c]] | x # xs \<Rightarrow> (c # x) # xs)"

fun join_slash :: "string list \<Rightarrow> string" where
  "join_slash [] = []"
| "join_slash [x] = x"
| "join_slash (x # y # r) = x @ ''/'' @ join_slash (y # r)"

definition clean_step :: "bool \<Rightarrow> string list \<Rightarrow> string \<Rightarrow> string list" where
  "clean_step rooted out seg =
     (if seg = ''..'' then
        (if out \<noteq> [] \<and> last out \<noteq> ''..'' then butlast out
         else if rooted then out
         else out @ [seg])
      else out @ [seg])"

definition Clean :: "string \<Rightarrow> string" where
  "Clean p =
     (let rooted = (p \<noteq> [] \<and> hd p = CHR ''/'');
          segs = filter (\<lambda>s. s \<noteq> [] \<and> s \<noteq> ''.'') (split_slash p);
          res = (if rooted then ''/'' else []) @ join_slash (foldl (clean_step rooted) [] segs)
      in if res = [] then ''.'' else res)"

text \<open>\<open>filepath.Join\<close> of two elements: empty leading elements are skipped, the rest is cleaned.\<close>

definition Join :: "string \<Rightarrow> string \<Rightarrow> string" where
  "Join dir nm =
     (if dir \<noteq> [] then Clean (dir @ ''/'' @ nm)
      else if nm \<noteq> [] then Clean nm
      else [])"

section \<open>The Views value and TemplateName\<close>

text \<open>
  A \<open>*template.Template\<close> is a name and the name space it shares with the templates
  associated with it; a name maps to \<open>None\<close> while its template has no parsed body.
  The engine is opaque to the package: a body is whatever the engine's parser returns.
\<close>

record 'p template =
  tname :: string
  tset :: "string \<rightharpoonup> 'p option"

text \<open>
  The struct \<open>Views\<close>. The field \<open>mu\<close> is a pointer that is never reassigned; its
  \<open>Lock\<close> and \<open>Unlock\<close> calls are events. A nil \<open>tmpls\<close> is \<open>None\<close>.
\<close>

record 'p Views =
  reload :: bool
  path :: string
  tmplExt :: string
  tmpls :: "'p template option"

text \<open>
  \<open>TemplateName\<close>, lines 116 to 124. The slice expression \<open>s[:len(s)-len(v.tmplExt)]\<close>
  panics when the bound is negative.
\<close>

definition TemplateName :: "'p Views \<Rightarrow> string \<Rightarrow> string outcome" where
  "TemplateName v s0 =
     (let cf = Trim (path v) [CHR ''.'', CHR ''/'', CHR 0x5C];
          s = TrimLeft (Replace1 s0 cf []) [CHR ''/'', CHR 0x5C]
      in if length (tmplExt v) \<le> length s
         then Returns (take (length s - length (tmplExt v)) s)
         else Panics SliceBoundsOutOfRange)"

text \<open>
  The name derivation in the words of the specification, for comparison with
  \<open>TemplateName\<close>: trim the root of leading and trailing separators and dots, remove the
  first occurrence of the trimmed root anywhere in the file path, strip the leading
  slashes and backslashes that remain, and drop as many characters from the end as the
  extension has. The result is \<open>None\<close> where fewer characters than that remain.
\<close>

definition sep_or_dot :: "char \<Rightarrow> bool" where
  "sep_or_dot c = (c = CHR ''.'' \<or> c = CHR ''/'' \<or> c = CHR 0x5C)"

definition slash_like :: "char \<Rightarrow> bool" where
  "slash_like c = (c = CHR ''/'' \<or> c = CHR 0x5C)"

definition occurs_at :: "string \<Rightarrow> string \<Rightarrow> nat \<Rightarrow> bool" where
  "occurs_at sub s i = (take (length sub) (drop i s) = sub \<and> i \<le> length s)"

definition remove_first_occurrence :: "string \<Rightarrow> string \<Rightarrow> string" where
  "remove_first_occurrence sub s =
     (case find (occurs_at sub s) [0 ..< Suc (length s)] of
        None \<Rightarrow> s
      | Some i \<Rightarrow> take i s @ drop (i + length sub) s)"

definition spec_derived_name :: "string \<Rightarrow> string \<Rightarrow> string \<Rightarrow> string option" where
  "spec_derived_name root ext file =
     (let trimmed = rev (dropWhile sep_or_dot (rev (dropWhile sep_or_dot root)));
          rest = dropWhile slash_like (remove_first_occurrence trimmed file)
      in if length rest < length ext then None
         else Some (rev (drop (length ext) (rev rest))))"

section \<open>The file tree and filepath.Walk\<close>

text \<open>
  What \<open>os.Lstat\<close>, the directory listing and \<open>ioutil.ReadFile\<close> answer on a path:
  \<open>Absent e\<close> is a path on which \<open>Lstat\<close> fails with \<open>e\<close>; \<open>File c\<close> is an entry that is
  not a directory, \<open>c\<close> being what reading it returns; \<open>DirNoList e\<close> is a directory whose
  listing fails with \<open>e\<close>; \<open>Dir cs\<close> is a directory with its entries, in any order.
  The \<open>os.FileInfo\<close> handed to the callback is the node itself (\<open>None\<close> for Go's nil).
\<close>

datatype node =
    Absent error
  | File "error + string"
  | DirNoList error
  | Dir "(string \<times> node) list"

fun IsDir :: "node \<Rightarrow> bool" where
  "IsDir (Dir cs) = True"
| "IsDir (DirNoList e) = True"
| "IsDir (File c) = False"
| "IsDir (Absent e) = False"

fun ReadFile :: "node \<Rightarrow> error + string" where
  "ReadFile (File c) = c"
| "ReadFile (Absent e) = Inl e"
| "ReadFile (DirNoList e) = Inl (IOError ''is a directory'')"
| "ReadFile (Dir cs) = Inl (IOError ''is a directory'')"

type_synonym 's WalkFunc =
  "string \<Rightarrow> node option \<Rightarrow> error option \<Rightarrow> 's \<Rightarrow> (error option \<times> 's) outcome"

text \<open>
  \<open>filepath.Walk\<close> and its helper \<open>walk\<close>, with the state of the callback's closure
  passed along. \<open>walk\<close> on an \<open>Absent\<close> node is the branch of its caller for a failed
  \<open>Lstat\<close>: the callback is called with a nil info and the error. A directory is listed
  before the callback sees it, the names sorted; the callback's error, or a panic, ends
  the walk. The callback of \<open>view.go\<close> never returns \<open>filepath.SkipDir\<close>, which is
  therefore not a value of \<open>error\<close>.
\<close>

function walk :: "'s WalkFunc \<Rightarrow> string \<Rightarrow> node \<Rightarrow> 's \<Rightarrow> (error option \<times> 's) outcome"
  and walkNames :: "'s WalkFunc \<Rightarrow> string \<Rightarrow> (string \<times> node) list \<Rightarrow> 's \<Rightarrow> (error option \<times> 's) outcome"
where
  "walk fn p (Absent e) st = fn p None (Some e) st"
| "walk fn p (File c) st = fn p (Some (File c)) None st"
| "walk fn p (DirNoList e) st = fn p (Some (DirNoList e)) (Some e) st"
| "walk fn p (Dir cs) st =
     (case fn p (Some (Dir cs)) None st of
        Panics f \<Rightarrow> Panics f
      | Returns (Some e1, st') \<Rightarrow> Returns (Some e1, st')
      | Returns (None, st') \<Rightarrow> walkNames fn p (sort_key fst cs) st')"
| "walkNames fn p [] st = Returns (None, st)"
| "walkNames fn p ((nm, n) # rest) st =
     (case walk fn (Join p nm) n st of
        Panics f \<Rightarrow> Panics f
      | Returns (Some e, st') \<Rightarrow> Returns (Some e, st')
      | Returns (None, st') \<Rightarrow> walkNames fn p rest st')"
  by pat_completeness auto

definition Walk :: "(string \<Rightarrow> node) \<Rightarrow> string \<Rightarrow> 's WalkFunc \<Rightarrow> 's \<Rightarrow> (error option \<times> 's) outcome" where
  "Walk fs root fn st = walk fn root (fs root) st"

section \<open>The template engine\<close>

text \<open>
  The three engine calls of \<open>view.go\<close>. \<open>template.New\<close> makes a fresh name space holding
  the new, empty template. \<open>t.New(name)\<close> returns a template of that name in the name space
  of \<open>t\<close>, where it replaces a template of the same name. \<open>Parse\<close> gives the receiver the
  body that the engine's parser, the parameter \<open>parse\<close>, returns for the text, or fails
  with the parser's error. Rendering is the parameter \<open>exec\<close>: the text written and the
  error, if any. A text contributes one body, under the name of the receiver: the
  engine's own rules for templates defined inside a text, and for a text that is empty,
  are left to the engine and are not part of this model.
\<close>

definition template_New :: "string \<Rightarrow> 'p template" where
  "template_New nm = \<lparr>tname = nm, tset = [nm \<mapsto> None]\<rparr>"

definition New :: "'p template \<Rightarrow> string \<Rightarrow> 'p template" where
  "New t nm = \<lparr>tname = nm, tset = (tset t)(nm \<mapsto> None)\<rparr>"

definition Parse :: "(string \<Rightarrow> error + 'p) \<Rightarrow> 'p template \<Rightarrow> string \<Rightarrow> error + 'p template" where
  "Parse parse t src =
     (case parse src of
        Inl e \<Rightarrow> Inl e
      | Inr body \<Rightarrow> Inr (t\<lparr>tset := (tset t)(tname t \<mapsto> Some body)\<rparr>))"

definition template_ExecuteTemplate ::
  "('p \<Rightarrow> 'd \<Rightarrow> string \<times> error option) \<Rightarrow> 'p template \<Rightarrow> string \<Rightarrow> string \<Rightarrow> 'd
     \<Rightarrow> error option \<times> string" where
  "template_ExecuteTemplate exec t w nm d =
     (case tset t nm of
        None \<Rightarrow> (Some (Undefined nm), w)
      | Some None \<Rightarrow> (Some (Incomplete nm), w)
      | Some (Some body) \<Rightarrow> (case exec body d of (out, r) \<Rightarrow> (r, w @ out)))"

definition template_Execute ::
  "('p \<Rightarrow> 'd \<Rightarrow> string \<times> error option) \<Rightarrow> 'p template \<Rightarrow> string \<Rightarrow> 'd
     \<Rightarrow> error option \<times> string" where
  "template_Execute exec t w d = template_ExecuteTemplate exec t w (tname t) d"

section \<open>ParseTemplates, NewViews and the render functions\<close>

text \<open>
  The function literal passed to \<open>filepath.Walk\<close>, lines 87 to 103. Its closure holds the
  local \<open>t\<close>, a pointer that a failed \<open>Parse\<close> sets to nil, and the events so far.
  \<open>info.IsDir()\<close> on a nil \<open>info\<close> panics, and so does \<open>t.New\<close> on a nil \<open>t\<close>. The
  \<open>err\<close> of the last line is the parameter: the \<open>err\<close> declared inside the \<open>if\<close> block
  shadows it only there.
\<close>

definition walkFn ::
  "(string \<Rightarrow> error + 'p) \<Rightarrow> 'p Views \<Rightarrow> ('p template option \<times> event list) WalkFunc" where
  "walkFn parse v p info err st =
     (case st of (t, evs) \<Rightarrow>
        let evs1 = (case err of Some e \<Rightarrow> evs @ [Println e] | None \<Rightarrow> evs) in
        (case info of
          None \<Rightarrow> Panics NilPointerDereference
        | Some n \<Rightarrow>
            if \<not> IsDir n \<and> Ext p = tmplExt v then
              (case ReadFile n of
                 Inl e \<Rightarrow> Returns (Some e, t, evs1 @ [ReadFileCall p])
               | Inr b \<Rightarrow>
                   (case TemplateName v p of
                      Panics f \<Rightarrow> Panics f
                    | Returns nm \<Rightarrow>
                        (case t of
                           None \<Rightarrow> Panics NilPointerDereference
                         | Some t0 \<Rightarrow>
                             (case Parse parse (New t0 nm) b of
                                Inl e \<Rightarrow> Returns (Some e, None, evs1 @ [ReadFileCall p, ParseCall nm])
                              | Inr t' \<Rightarrow> Returns (err, Some t', evs1 @ [ReadFileCall p, ParseCall nm])))))
            else Returns (err, t, evs1)))"

text \<open>
  \<open>ParseTemplates\<close>, lines 84 to 112: the result, the \<open>Views\<close> value afterwards and the
  events. The deferred \<open>Unlock\<close> runs after the store to \<open>v.tmpls\<close>.
\<close>

definition ParseTemplates ::
  "(string \<Rightarrow> error + 'p) \<Rightarrow> (string \<Rightarrow> node) \<Rightarrow> 'p Views
     \<Rightarrow> error option outcome \<times> 'p Views \<times> event list" where
  "ParseTemplates parse fs v =
     (case Walk fs (path v) (walkFn parse v) (Some (template_New ''all''), []) of
        Panics f \<Rightarrow> (Panics f, v, [])
      | Returns (Some e, t, evs) \<Rightarrow> (Returns (Some e), v, evs)
      | Returns (None, t, evs) \<Rightarrow> (Returns None, v\<lparr>tmpls := t\<rparr>, evs @ [Lock, StoreTmpls, Unlock]))"

text \<open>\<open>NewViews\<close>, lines 35 to 49: \<open>Inl\<close> is the return of \<open>nil, err\<close>.\<close>

definition NewViews ::
  "(string \<Rightarrow> error + 'p) \<Rightarrow> (string \<Rightarrow> node) \<Rightarrow> string \<Rightarrow> string \<Rightarrow> bool
     \<Rightarrow> (error + 'p Views) outcome \<times> event list" where
  "NewViews parse fs p x r =
     (let v = \<lparr>reload = r, path = p, tmplExt = x, tmpls = None\<rparr> in
      case ParseTemplates parse fs v of
        (Panics f, v', evs) \<Rightarrow> (Panics f, evs)
      | (Returns (Some e), v', evs) \<Rightarrow> (Returns (Inl e), evs)
      | (Returns None, v', evs) \<Rightarrow> (Returns (Inr v'), evs))"

text \<open>
  \<open>ExecuteTemplate\<close>, lines 52 to 60, and \<open>Execute\<close>, lines 63 to 71: the result, the
  \<open>Views\<close> value afterwards, the contents of the writer and the events. Both read
  \<open>v.reload\<close> and \<open>v.tmpls\<close> directly. A method call on a nil \<open>v.tmpls\<close> panics.
\<close>

definition ExecuteTemplate ::
  "(string \<Rightarrow> error + 'p) \<Rightarrow> ('p \<Rightarrow> 'd \<Rightarrow> string \<times> error option) \<Rightarrow> (string \<Rightarrow> node) \<Rightarrow> 'p Views
     \<Rightarrow> string \<Rightarrow> string \<Rightarrow> 'd \<Rightarrow> error option outcome \<times> 'p Views \<times> string \<times> event list" where
  "ExecuteTemplate parse exec fs v w nm d =
     (case (if reload v then ParseTemplates parse fs v else (Returns None, v, [])) of
        (Panics f, v', evs) \<Rightarrow> (Panics f, v', w, LoadReload # evs)
      | (Returns (Some e), v', evs) \<Rightarrow> (Returns (Some e), v', w, LoadReload # evs)
      | (Returns None, v', evs) \<Rightarrow>
          (case tmpls v' of
             None \<Rightarrow> (Panics NilPointerDereference, v', w, LoadReload # evs @ [LoadTmpls])
           | Some t \<Rightarrow>
               (case template_ExecuteTemplate exec t w nm d of
                  (r, w') \<Rightarrow> (Returns r, v', w', LoadReload # evs @ [LoadTmpls]))))"

definition Execute ::
  "(string \<Rightarrow> error + 'p) \<Rightarrow> ('p \<Rightarrow> 'd \<Rightarrow> string \<times> error option) \<Rightarrow> (string \<Rightarrow> node) \<Rightarrow> 'p Views
     \<Rightarrow> string \<Rightarrow> 'd \<Rightarrow> error option outcome \<times> 'p Views \<times> string \<times> event list" where
  "Execute parse exec fs v w d =
     (case (if reload v then ParseTemplates parse fs v else (Returns None, v, [])) of
        (Panics f, v', evs) \<Rightarrow> (Panics f, v', w, LoadReload # evs)
      | (Returns (Some e), v', evs) \<Rightarrow> (Returns (Some e), v', w, LoadReload # evs)
      | (Returns None, v', evs) \<Rightarrow>
          (case tmpls v' of
             None \<Rightarrow> (Panics NilPointerDereference, v', w, LoadReload # evs @ [LoadTmpls])
           | Some t \<Rightarrow>
               (case template_Execute exec t w d of
                  (r, w') \<Rightarrow> (Returns r, v', w', LoadReload # evs @ [LoadTmpls]))))"

text \<open>\<open>Reload\<close>, lines 75 to 79.\<close>

definition Reload :: "'p Views \<Rightarrow> bool \<Rightarrow> 'p Views \<times> event list" where
  "Reload v f = (v\<lparr>reload := f\<rparr>, [Lock, StoreReload f, Unlock])"

section \<open>The entries of a tree in walk order\<close>

text \<open>
  Every entry under a root with its path, a directory before its entries and the
  entries of a directory in the order of their sorted names: the calls that
  \<open>filepath.Walk\<close> makes when the callback never returns an error.
\<close>

function entries :: "string \<Rightarrow> node \<Rightarrow> (string \<times> node) list"
  and entriesNames :: "string \<Rightarrow> (string \<times> node) list \<Rightarrow> (string \<times> node) list"
where
  "entries p (Absent e) = [(p, Absent e)]"
| "entries p (File c) = [(p, File c)]"
| "entries p (DirNoList e) = [(p, DirNoList e)]"
| "entries p (Dir cs) = (p, Dir cs) # entriesNames p (sort_key fst cs)"
| "entriesNames p [] = []"
| "entriesNames p ((nm, n) # rest) = entries (Join p nm) n @ entriesNames p rest"
  by pat_completeness auto

fun info_of :: "node \<Rightarrow> node option" where
  "info_of (Absent e) = None"
| "info_of (File c) = Some (File c)"
| "info_of (DirNoList e) = Some (DirNoList e)"
| "info_of (Dir cs) = Some (Dir cs)"

fun err_of :: "node \<Rightarrow> error option" where
  "err_of (Absent e) = Some e"
| "err_of (File c) = None"
| "err_of (DirNoList e) = Some e"
| "err_of (Dir cs) = None"

fun run :: "'s WalkFunc \<Rightarrow> (string \<times> node) list \<Rightarrow> 's \<Rightarrow> (error option \<times> 's) outcome" where
  "run fn [] st = Returns (None, st)"
| "run fn ((p, n) # es) st =
     (case fn p (info_of n) (err_of n) st of
        Panics f \<Rightarrow> Panics f
      | Returns (Some e, st') \<Rightarrow> Returns (Some e, st')
      | Returns (None, st') \<Rightarrow> run fn es st')"

section \<open>What a pass does entry by entry\<close>

text \<open>
  For stating what a pass reads and installs: the name and body that a matched entry
  contributes (\<open>source_of\<close>, \<open>sources\<close>), the entries on which the callback returns nil
  (\<open>entry_ok\<close>), the events of the callback on such an entry (\<open>entry_events\<close>), and the
  name space after the \<open>New\<close> and \<open>Parse\<close> calls for a list of sources (\<open>install\<close>).
\<close>

fun source_of :: "(string \<Rightarrow> error + 'p) \<Rightarrow> 'p Views \<Rightarrow> string \<times> node \<Rightarrow> (string \<times> 'p) option" where
  "source_of parse v (p, n) =
     (if \<not> IsDir n \<and> Ext p = tmplExt v then
        (case ReadFile n of
           Inl e \<Rightarrow> None
         | Inr b \<Rightarrow>
             (case TemplateName v p of
                Panics f \<Rightarrow> None
              | Returns nm \<Rightarrow> (case parse b of Inl e \<Rightarrow> None | Inr body \<Rightarrow> Some (nm, body))))
      else None)"

definition sources :: "(string \<Rightarrow> error + 'p) \<Rightarrow> 'p Views \<Rightarrow> (string \<times> node) list \<Rightarrow> (string \<times> 'p) list" where
  "sources parse v es = List.map_filter (source_of parse v) es"

fun entry_ok :: "(string \<Rightarrow> error + 'p) \<Rightarrow> 'p Views \<Rightarrow> string \<times> node \<Rightarrow> bool" where
  "entry_ok parse v (p, n) =
     (case err_of n of
        Some e \<Rightarrow> False
      | None \<Rightarrow>
          (if \<not> IsDir n \<and> Ext p = tmplExt v
           then (case source_of parse v (p, n) of None \<Rightarrow> False | Some x \<Rightarrow> True)
           else True))"

fun entry_events :: "'p Views \<Rightarrow> string \<times> node \<Rightarrow> event list" where
  "entry_events v (p, n) =
     (if \<not> IsDir n \<and> Ext p = tmplExt v
      then [ReadFileCall p, ParseCall (case TemplateName v p of Returns nm \<Rightarrow> nm | Panics f \<Rightarrow> [])]
      else [])"

definition install :: "(string \<rightharpoonup> 'p option) \<Rightarrow> (string \<times> 'p) list \<Rightarrow> (string \<rightharpoonup> 'p option)" where
  "install m srcs = foldl (\<lambda>m (nm, body). m(nm \<mapsto> Some body)) m srcs"

section \<open>Concrete inputs\<close>

text \<open>
  A parser that rejects the text of an unclosed action and accepts every other text as
  its own body, a renderer that writes the body followed by the data, and a file system
  with one tree at one root path, every other path being absent.
\<close>

definition example_parse :: "string \<Rightarrow> error + string" where
  "example_parse src =
     (if src = ''{{'' then Inl (TemplateError ''unclosed action'') else Inr src)"

definition example_exec :: "string \<Rightarrow> string \<Rightarrow> string \<times> error option" where
  "example_exec body d = (body @ d, None)"

definition tree_at :: "string \<Rightarrow> node \<Rightarrow> string \<Rightarrow> node" where
  "tree_at root n p = (if p = root then n else Absent (IOError ''no such file or directory''))"

definition example_views :: "string \<Rightarrow> string \<Rightarrow> string Views" where
  "example_views root x =
     \<lparr>reload = False, path = root, tmplExt = x, tmpls = Some (template_New ''previous'')\<rparr>"

section \<open>Termination of the walk\<close>

lemma size_list_insort_key: "size_list g (insort_key k x xs) = size_list g (x # xs)"
  by (induction xs) auto

lemma size_list_sort_key: "size_list g (sort_key k xs) = size_list g xs"
  by (induction xs) (auto simp: size_list_insort_key)

termination walk
  apply (relation "measure (\<lambda>x. case x of Inl (fn, p, n, st) \<Rightarrow> size n
                                  | Inr (fn, p, cs, st) \<Rightarrow> size_list (size_prod (\<lambda>_. 0) size) cs)")
    apply (auto simp: size_list_sort_key)
  done

termination entries
  apply (relation "measure (\<lambda>x. case x of Inl (p, n) \<Rightarrow> size n
                                  | Inr (p, cs) \<Rightarrow> size_list (size_prod (\<lambda>_. 0) size) cs)")
    apply (auto simp: size_list_sort_key)
  done

lemma run_append:
  "run fn (xs @ ys) st =
     (case run fn xs st of
        Panics f \<Rightarrow> Panics f
      | Returns (Some e, st') \<Rightarrow> Returns (Some e, st')
      | Returns (None, st') \<Rightarrow> run fn ys st')"
  by (induction xs arbitrary: st) (auto split: outcome.splits option.splits prod.splits)

lemma walk_run:
  "walk fn p n st = run fn (entries p n) st"
  "walkNames fn p cs st = run fn (entriesNames p cs) st"
  by (induction fn p n st and fn p cs st rule: walk_walkNames.induct)
     (auto simp: run_append split: outcome.splits option.splits prod.splits)

section \<open>The callback, entry by entry\<close>

lemma ParseTemplates_run:
  "ParseTemplates parse fs v =
     (case run (walkFn parse v) (entries (path v) (fs (path v))) (Some (template_New ''all''), []) of
        Panics f \<Rightarrow> (Panics f, v, [])
      | Returns (Some e, t, evs) \<Rightarrow> (Returns (Some e), v, evs)
      | Returns (None, t, evs) \<Rightarrow> (Returns None, v\<lparr>tmpls := t\<rparr>, evs @ [Lock, StoreTmpls, Unlock]))"
  by (simp add: ParseTemplates_def Walk_def walk_run)

lemma walkFn_Absent:
  "walkFn parse v p None err st = Panics NilPointerDereference"
  by (simp add: walkFn_def split: prod.splits)

lemma walkFn_DirNoList:
  "walkFn parse v p (Some (DirNoList e')) (Some e) (t, evs) =
     Returns (Some e, t, evs @ [Println e])"
  by (simp add: walkFn_def)

lemma walkFn_Dir:
  "walkFn parse v p (Some (Dir cs)) None (t, evs) = Returns (None, t, evs)"
  by (simp add: walkFn_def)

lemma walkFn_File_other:
  "Ext p \<noteq> tmplExt v \<Longrightarrow>
   walkFn parse v p (Some (File c)) None (t, evs) = Returns (None, t, evs)"
  by (simp add: walkFn_def)

lemma walkFn_File_match:
  "Ext p = tmplExt v \<Longrightarrow>
   walkFn parse v p (Some (File c)) None (Some t, evs) =
     (case c of
        Inl e \<Rightarrow> Returns (Some e, Some t, evs @ [ReadFileCall p])
      | Inr b \<Rightarrow>
          (case TemplateName v p of
             Panics f \<Rightarrow> Panics f
           | Returns nm \<Rightarrow>
               (case parse b of
                  Inl e \<Rightarrow> Returns (Some e, None, evs @ [ReadFileCall p, ParseCall nm])
                | Inr body \<Rightarrow>
                    Returns (None, Some \<lparr>tname = nm, tset = (tset t)(nm \<mapsto> Some body)\<rparr>,
                             evs @ [ReadFileCall p, ParseCall nm]))))"
  by (simp add: walkFn_def Parse_def New_def split: sum.splits outcome.splits)

lemmas walkFn_node = walkFn_Absent walkFn_DirNoList walkFn_Dir walkFn_File_other walkFn_File_match

lemma run_walkFn_inv:
  "run (walkFn parse v) es (Some t, evs) = Returns (r, t', evs') \<Longrightarrow>
     (r = None \<longrightarrow> t' \<noteq> None) \<and>
     (\<exists>suf. evs' = evs @ suf \<and> (\<forall>e. Println e \<in> set suf \<longrightarrow> r = Some e \<and> last suf = Println e))"
proof (induction es arbitrary: t evs)
  case Nil
  then show ?case by auto
next
  case (Cons pn es)
  obtain p n where pn: "pn = (p, n)" by (cases pn)
  show ?case
  proof (cases n)
    case (Absent e)
    with Cons.prems pn show ?thesis by (simp add: walkFn_node)
  next
    case (DirNoList e)
    with Cons.prems pn show ?thesis by (auto simp add: walkFn_node)
  next
    case (Dir cs)
    with Cons.prems pn have "run (walkFn parse v) es (Some t, evs) = Returns (r, t', evs')"
      by (simp add: walkFn_node)
    then show ?thesis by (rule Cons.IH)
  next
    case (File c)
    show ?thesis
    proof (cases "Ext p = tmplExt v")
      case False
      with Cons.prems pn File have "run (walkFn parse v) es (Some t, evs) = Returns (r, t', evs')"
        by (simp add: walkFn_node)
      then show ?thesis by (rule Cons.IH)
    next
      case True
      show ?thesis
      proof (cases c)
        case (Inl e)
        with Cons.prems pn File True show ?thesis by (auto simp add: walkFn_node)
      next
        case (Inr b)
        show ?thesis
        proof (cases "TemplateName v p")
          case (Panics f)
          with Cons.prems pn File True Inr show ?thesis by (simp add: walkFn_node)
        next
          case (Returns nm)
          show ?thesis
          proof (cases "parse b")
            case (Inl e)
            with Cons.prems pn File True Inr Returns show ?thesis by (auto simp add: walkFn_node)
          next
            case body: (Inr body)
            with Cons.prems pn File True Inr Returns
            have "run (walkFn parse v) es
                    (Some \<lparr>tname = nm, tset = (tset t)(nm \<mapsto> Some body)\<rparr>,
                     evs @ [ReadFileCall p, ParseCall nm]) = Returns (r, t', evs')"
              by (simp add: walkFn_node)
            from Cons.IH [OF this] show ?thesis by auto
          qed
        qed
      qed
    qed
  qed
qed

section \<open>The derived template name\<close>

lemma dropWhile_snoc_keeps_last:
  assumes "\<not> P y"
  shows "\<exists>zs. dropWhile P (ys @ [y]) = zs @ [y]"
proof (cases "\<forall>x \<in> set ys. P x")
  case True
  then have "dropWhile P (ys @ [y]) = dropWhile P [y]"
    by (simp only: dropWhile_append2)
  with assms show ?thesis by simp
next
  case False
  then obtain x where "x \<in> set ys" "\<not> P x" by blast
  then have "dropWhile P (ys @ [y]) = dropWhile P ys @ [y]"
    by (rule dropWhile_append1)
  then show ?thesis by simp
qed

lemma trim_both_ends_commute:
  "dropWhile P (rev (dropWhile P (rev xs))) = rev (dropWhile P (rev (dropWhile P xs)))"
proof (cases "dropWhile P xs")
  case Nil
  then have "\<forall>x \<in> set (rev xs). P x"
    by (simp add: dropWhile_eq_Nil_conv)
  then have b: "dropWhile P (rev xs) = []"
    by (simp only: dropWhile_eq_Nil_conv)
  show ?thesis
    by (simp only: Nil b rev.simps dropWhile.simps)
next
  case (Cons y ys)
  then have ny: "\<not> P y"
    by (metis hd_dropWhile list.distinct(1) list.sel(1))
  have xs: "xs = takeWhile P xs @ y # ys"
    using Cons by (metis takeWhile_dropWhile_id)
  obtain zs where zs: "dropWhile P (rev ys @ [y]) = zs @ [y]"
    using dropWhile_snoc_keeps_last [of P y "rev ys"] ny by blast
  have rx: "rev xs = (rev ys @ [y]) @ rev (takeWhile P xs)"
    by (subst xs) simp
  have "y \<in> set (rev ys @ [y])" by simp
  then have "dropWhile P ((rev ys @ [y]) @ rev (takeWhile P xs)) =
             dropWhile P (rev ys @ [y]) @ rev (takeWhile P xs)"
    using ny by (rule dropWhile_append1)
  then have "dropWhile P (rev xs) = (zs @ [y]) @ rev (takeWhile P xs)"
    by (simp only: rx zs)
  then have "rev (dropWhile P (rev xs)) = takeWhile P xs @ y # rev zs"
    by simp
  moreover have "\<forall>x \<in> set (takeWhile P xs). P x"
    by (auto dest: set_takeWhileD)
  ultimately have "dropWhile P (rev (dropWhile P (rev xs))) = dropWhile P (y # rev zs)"
    by (simp only: dropWhile_append2)
  also have "\<dots> = y # rev zs" using ny by simp
  also have "\<dots> = rev (zs @ [y])" by simp
  also have "\<dots> = rev (dropWhile P (rev (dropWhile P xs)))"
    by (simp only: Cons zs rev.simps)
  finally show ?thesis .
qed


lemma TrimLeft_dropWhile: "TrimLeft s cs = dropWhile (\<lambda>c. c \<in> set cs) s"
  by (induction s) auto

lemma occurs_at_0: "occurs_at sub s 0 = prefix sub s"
  unfolding occurs_at_def
  by (metis append_eq_conv_conj prefix_def append_take_drop_id drop0 le0)

lemma occurs_at_Suc: "occurs_at sub (c # s) (Suc i) = occurs_at sub s i"
  by (simp add: occurs_at_def)

lemma find_map_option: "find P (map f xs) = map_option f (find (\<lambda>x. P (f x)) xs)"
  by (induction xs) auto

lemma find_upt_Suc:
  "find P [0 ..< Suc (Suc n)] =
     (if P 0 then Some 0 else map_option Suc (find (\<lambda>i. P (Suc i)) [0 ..< Suc n]))"
proof -
  have "[0 ..< Suc (Suc n)] = 0 # map Suc [0 ..< Suc n]"
    by (metis map_Suc_upt upt_conv_Cons zero_less_Suc)
  then show ?thesis
    by (simp only: find.simps find_map_option)
qed

lemma Index_find: "Index s sub = find (occurs_at sub s) [0 ..< Suc (length s)]"
proof (induction s)
  case Nil
  show ?case by (auto simp: occurs_at_def)
next
  case (Cons c s)
  have "find (occurs_at sub (c # s)) [0 ..< Suc (length (c # s))] =
        (if prefix sub (c # s) then Some 0
         else map_option Suc (find (occurs_at sub s) [0 ..< Suc (length s)]))"
    by (simp only: list.size find_upt_Suc occurs_at_0 occurs_at_Suc add_Suc_right add_0_right)
  with Cons show ?case by simp
qed

lemma Replace1_remove_first: "Replace1 s sub [] = remove_first_occurrence sub s"
proof (cases "sub = []")
  case True
  have "find (occurs_at [] s) [0 ..< Suc (length s)] = Some 0"
    by (simp add: occurs_at_def upt_rec)
  with True show ?thesis
    by (simp add: Replace1_def remove_first_occurrence_def)
next
  case False
  then show ?thesis
    by (simp add: Replace1_def remove_first_occurrence_def Index_find split: option.splits)
qed

lemma Trim_dropWhile:
  "Trim r [CHR ''.'', CHR ''/'', CHR 0x5C] =
     rev (dropWhile sep_or_dot (rev (dropWhile sep_or_dot r)))"
proof -
  have eq: "(\<lambda>c. c \<in> set [CHR ''.'', CHR ''/'', CHR 0x5C]) = sep_or_dot"
    by (auto simp: sep_or_dot_def fun_eq_iff)
  show ?thesis
    by (simp only: Trim_def TrimRight_def TrimLeft_dropWhile eq trim_both_ends_commute)
qed

lemma TrimLeft_slashes:
  "TrimLeft s [CHR ''/'', CHR 0x5C] = dropWhile slash_like s"
proof -
  have eq: "(\<lambda>c. c \<in> set [CHR ''/'', CHR 0x5C]) = slash_like"
    by (auto simp: slash_like_def fun_eq_iff)
  show ?thesis
    by (simp only: TrimLeft_dropWhile eq)
qed

lemma TemplateName_spec:
  "TemplateName v file =
     (case spec_derived_name (path v) (tmplExt v) file of
        None \<Rightarrow> Panics SliceBoundsOutOfRange
      | Some nm \<Rightarrow> Returns nm)"
  by (simp add: TemplateName_def spec_derived_name_def Let_def Trim_dropWhile TrimLeft_slashes
      Replace1_remove_first rev_drop)

text \<open>
  Claim C2. For every root path, extension selector and file path, \<open>TemplateName\<close>
  computes the name the specification describes: the root trimmed of leading and
  trailing separators and dots, its first occurrence removed from the file path, the
  leading slashes and backslashes stripped, and as many characters dropped from the end
  as the extension has (where fewer remain, the slice expression panics and there is no
  name). With root \<open>templates/\<close>, extension \<open>.tmpl\<close> and file
  \<open>templates/foo/bar/index.tmpl\<close> the name is \<open>foo/bar/index\<close>.
\<close>

theorem C2_TemplateName_as_specified:
  "TemplateName v file =
     (case spec_derived_name (path v) (tmplExt v) file of
        None \<Rightarrow> Panics SliceBoundsOutOfRange
      | Some nm \<Rightarrow> Returns nm)
   \<and> TemplateName \<lparr>reload = r, path = ''templates/'', tmplExt = ''.tmpl'', tmpls = t\<rparr>
         ''templates/foo/bar/index.tmpl'' = Returns ''foo/bar/index''"
proof
  show "TemplateName v file =
     (case spec_derived_name (path v) (tmplExt v) file of
        None \<Rightarrow> Panics SliceBoundsOutOfRange
      | Some nm \<Rightarrow> Returns nm)"
    by (rule TemplateName_spec)
  show "TemplateName \<lparr>reload = r, path = ''templates/'', tmplExt = ''.tmpl'', tmpls = t\<rparr>
         ''templates/foo/bar/index.tmpl'' = Returns ''foo/bar/index''"
    by (simp add: TemplateName_def Trim_def TrimRight_def Replace1_def)
qed

section \<open>Compile passes that fail\<close>

lemmas eval_defs = ParseTemplates_def Walk_def walkFn_def Ext_def TemplateName_def Trim_def
  TrimRight_def Replace1_def Join_def Clean_def clean_step_def Parse_def New_def template_New_def
  example_parse_def example_exec_def tree_at_def example_views_def

text \<open>
  Claim C1. Whenever a compile pass returns an error, the \<open>Views\<close> value, and with it the
  installed collection \<open>tmpls\<close>, is what it was before the pass: \<open>ParseTemplates\<close> assigns
  \<open>v.tmpls\<close> only after the walk has returned nil, and builds on a fresh local set. The
  same holds when the pass is run by a render with reload enabled, which returns the error
  of the pass without rendering; \<open>NewViews\<close> returns the error of its pass and no value.
\<close>

theorem C1_failed_pass_installs_nothing:
  "(ParseTemplates parse fs v = (Returns (Some e), v', evs) \<longrightarrow> v' = v)
   \<and> (reload v \<and> ParseTemplates parse fs v = (Returns (Some e), v', evs) \<longrightarrow>
        ExecuteTemplate parse exec fs v w nm d = (Returns (Some e), v, w, LoadReload # evs)
      \<and> Execute parse exec fs v w d = (Returns (Some e), v, w, LoadReload # evs))
   \<and> (ParseTemplates parse fs \<lparr>reload = r, path = p, tmplExt = x, tmpls = None\<rparr>
         = (Returns (Some e), v', evs) \<longrightarrow>
        NewViews parse fs p x r = (Returns (Inl e), evs))"
proof -
  have unchanged: "v' = v" if "ParseTemplates parse fs v = (Returns (Some e), v', evs)"
    for v v' :: "'a Views"
    using that
    by (auto simp: ParseTemplates_def split: outcome.splits option.splits prod.splits)
  show ?thesis
    by (auto simp: ExecuteTemplate_def Execute_def NewViews_def dest: unchanged)
qed

text \<open>
  The hypotheses of C1 are met by a tree whose only template does not parse: the pass
  reads the file, fails in \<open>Parse\<close> and leaves the previous collection in place.
\<close>

theorem C1_witness:
  "ParseTemplates example_parse (tree_at ''t'' (Dir [(''a.tmpl'', File (Inr ''{{''))]))
       ((example_views ''t'' ''.tmpl'')\<lparr>reload := True\<rparr>)
     = (Returns (Some (TemplateError ''unclosed action'')),
        (example_views ''t'' ''.tmpl'')\<lparr>reload := True\<rparr>,
        [ReadFileCall ''t/a.tmpl'', ParseCall ''a''])
   \<and> ExecuteTemplate example_parse example_exec
         (tree_at ''t'' (Dir [(''a.tmpl'', File (Inr ''{{''))]))
         ((example_views ''t'' ''.tmpl'')\<lparr>reload := True\<rparr>) ''out'' ''a'' ''data''
     = (Returns (Some (TemplateError ''unclosed action'')),
        (example_views ''t'' ''.tmpl'')\<lparr>reload := True\<rparr>, ''out'',
        [LoadReload, ReadFileCall ''t/a.tmpl'', ParseCall ''a''])"
proof -
  let ?fs = "tree_at ''t'' (Dir [(''a.tmpl'', File (Inr ''{{''))])"
  let ?v = "(example_views ''t'' ''.tmpl'')\<lparr>reload := True\<rparr>"
  have run: "ParseTemplates example_parse ?fs ?v
     = (Returns (Some (TemplateError ''unclosed action'')), ?v,
        [ReadFileCall ''t/a.tmpl'', ParseCall ''a''])"
    by (simp add: ParseTemplates_def Walk_def walkFn_def Ext_def TemplateName_def Trim_def
        TrimRight_def Replace1_def Join_def Clean_def clean_step_def Parse_def New_def
        template_New_def example_parse_def tree_at_def example_views_def)
  have rl: "reload ?v" by (simp add: example_views_def)
  from C1_failed_pass_installs_nothing
    [of example_parse ?fs ?v "TemplateError ''unclosed action''" ?v
        "[ReadFileCall ''t/a.tmpl'', ParseCall ''a'']" example_exec "''out''" "''a''" "''data''"]
    run rl
  show ?thesis by simp
qed

text \<open>
  Claim C3, as the specification states it, says that an error the walk reports for one
  entry is logged and the walk goes on. It does not: the callback logs the error and its
  last statement returns it, which ends the walk. Below, the directory \<open>t/a\<close> cannot be
  listed; the pass fails with that error and \<open>t/b.tmpl\<close> is never read.
\<close>

theorem C3_counterexample:
  "ParseTemplates example_parse
     (tree_at ''t'' (Dir [(''a'', DirNoList (IOError ''permission denied'')),
                          (''b.tmpl'', File (Inr ''B''))]))
     (example_views ''t'' ''.tmpl'')
   = (Returns (Some (IOError ''permission denied'')), example_views ''t'' ''.tmpl'',
      [Println (IOError ''permission denied'')])"
  by (simp add: eval_defs)

text \<open>
  Claim C3, amended. In a compile pass that returns, an error the walk reports for an
  entry is logged and then returned by the callback: the log line is the last event of the
  pass, the pass fails with that very error and installs nothing. In particular, when
  the entries before a directory that cannot be listed are processed without error, the
  pass logs the listing error and returns it, whatever entries follow.
\<close>

theorem C3_walk_error_is_logged_and_returned:
  "(ParseTemplates parse fs v = (Returns r, v', evs) \<and> Println e \<in> set evs \<longrightarrow>
      r = Some e \<and> v' = v \<and> last evs = Println e)
   \<and> (entries (path v) (fs (path v)) = pre @ (p, DirNoList e) # post
        \<and> run (walkFn parse v) pre (Some (template_New ''all''), []) = Returns (None, t, evs0) \<longrightarrow>
      ParseTemplates parse fs v = (Returns (Some e), v, evs0 @ [Println e]))"
proof (rule conjI; rule impI)
  assume a: "ParseTemplates parse fs v = (Returns r, v', evs) \<and> Println e \<in> set evs"
  let ?r = "run (walkFn parse v) (entries (path v) (fs (path v))) (Some (template_New ''all''), [])"
  show "r = Some e \<and> v' = v \<and> last evs = Println e"
  proof (cases ?r)
    case (Panics f)
    with a show ?thesis by (simp add: ParseTemplates_run)
  next
    case (Returns x)
    obtain r0 t' evs' where x: "x = (r0, t', evs')" by (cases x)
    from run_walkFn_inv [OF Returns [unfolded x]]
    have inv: "\<forall>e. Println e \<in> set evs' \<longrightarrow> r0 = Some e \<and> last evs' = Println e"
      by auto
    show ?thesis
    proof (cases r0)
      case None
      with a Returns x have "evs = evs' @ [Lock, StoreTmpls, Unlock]"
        by (auto simp add: ParseTemplates_run)
      with a have "Println e \<in> set evs'" by auto
      with inv None show ?thesis by auto
    next
      case (Some e0)
      with a Returns x have "evs = evs'" "r = Some e0" "v' = v"
        by (auto simp add: ParseTemplates_run)
      with a inv Some show ?thesis by auto
    qed
  qed
next
  assume b: "entries (path v) (fs (path v)) = pre @ (p, DirNoList e) # post
        \<and> run (walkFn parse v) pre (Some (template_New ''all''), []) = Returns (None, t, evs0)"
  then show "ParseTemplates parse fs v = (Returns (Some e), v, evs0 @ [Println e])"
    by (simp add: ParseTemplates_run run_append walkFn_node)
qed

text \<open>
  A tree that meets the hypotheses of the amended C3: \<open>t/a.tmpl\<close> is read and parsed,
  then the listing of \<open>t/z\<close> fails, and \<open>t/zz.tmpl\<close> is not reached.
\<close>

theorem C3_witness:
  "ParseTemplates example_parse
     (tree_at ''t'' (Dir [(''zz.tmpl'', File (Inr ''Z'')),
                          (''z'', DirNoList (IOError ''permission denied'')),
                          (''a.tmpl'', File (Inr ''A''))]))
     (example_views ''t'' ''.tmpl'')
   = (Returns (Some (IOError ''permission denied'')), example_views ''t'' ''.tmpl'',
      [ReadFileCall ''t/a.tmpl'', ParseCall ''a'', Println (IOError ''permission denied'')])
   \<and> last [ReadFileCall ''t/a.tmpl'', ParseCall ''a'', Println (IOError ''permission denied'')]
       = Println (IOError ''permission denied'')"
proof -
  let ?root = "Dir [(''zz.tmpl'', File (Inr ''Z'')),
                    (''z'', DirNoList (IOError ''permission denied'')),
                    (''a.tmpl'', File (Inr ''A''))]"
  let ?fs = "tree_at ''t'' ?root"
  let ?v = "example_views ''t'' ''.tmpl''"
  let ?e = "IOError ''permission denied''"
  have ent: "entries (path ?v) (?fs (path ?v)) =
      [(''t'', ?root), (''t/a.tmpl'', File (Inr ''A''))] @ (''t/z'', DirNoList ?e)
        # [(''t/zz.tmpl'', File (Inr ''Z''))]"
    by (simp add: tree_at_def example_views_def Join_def Clean_def clean_step_def)
  have pre: "run (walkFn example_parse ?v) [(''t'', ?root), (''t/a.tmpl'', File (Inr ''A''))]
               (Some (template_New ''all''), [])
             = Returns (None, Some \<lparr>tname = ''a'', tset = [''all'' \<mapsto> None, ''a'' \<mapsto> Some ''A'']\<rparr>,
                        [ReadFileCall ''t/a.tmpl'', ParseCall ''a''])"
    by (simp add: walkFn_def Ext_def TemplateName_def Trim_def TrimRight_def Replace1_def
        Parse_def New_def template_New_def example_parse_def example_views_def)
  from C3_walk_error_is_logged_and_returned
    [of example_parse ?fs ?v "Some ?e" ?v
        "[ReadFileCall ''t/a.tmpl'', ParseCall ''a'', Println ?e]" ?e
        "[(''t'', ?root), (''t/a.tmpl'', File (Inr ''A''))]" "''t/z''"
        "[(''t/zz.tmpl'', File (Inr ''Z''))]"
        "Some \<lparr>tname = ''a'', tset = [''all'' \<mapsto> None, ''a'' \<mapsto> Some ''A'']\<rparr>"
        "[ReadFileCall ''t/a.tmpl'', ParseCall ''a'']"]
    ent pre
  show ?thesis by simp
qed

text \<open>
  Claim C4 says that a pass over a missing root returns the traversal error without
  crashing. \<open>filepath.Walk\<close> calls the callback with a nil \<open>info\<close> when \<open>Lstat\<close> of the root
  fails, and the callback calls \<open>info.IsDir()\<close> after logging: on every missing root the
  pass panics, for every parser and every \<open>Views\<close> value.
\<close>

theorem C4_missing_root_panics:
  "ParseTemplates parse (\<lambda>p. Absent (IOError ''no such file or directory'')) v
     = (Panics NilPointerDereference, v, [])"
  by (simp add: ParseTemplates_def Walk_def walkFn_def)

section \<open>The installed collection\<close>

lemma ParseTemplates_tmpls_kept:
  "tmpls v \<noteq> None \<Longrightarrow> tmpls (fst (snd (ParseTemplates parse fs v))) \<noteq> None"
proof -
  assume nn: "tmpls v \<noteq> None"
  let ?r = "run (walkFn parse v) (entries (path v) (fs (path v))) (Some (template_New ''all''), [])"
  show ?thesis
  proof (cases ?r)
    case (Panics f)
    with nn show ?thesis by (simp add: ParseTemplates_run)
  next
    case (Returns x)
    obtain r t' evs' where x: "x = (r, t', evs')" by (cases x)
    from run_walkFn_inv [OF Returns [unfolded x]] have "r = None \<longrightarrow> t' \<noteq> None" by blast
    with nn Returns x show ?thesis
      by (cases r) (auto simp add: ParseTemplates_run)
  qed
qed

lemma ParseTemplates_success_installs:
  "ParseTemplates parse fs v = (Returns None, v', evs) \<Longrightarrow> tmpls v' \<noteq> None"
proof -
  assume a: "ParseTemplates parse fs v = (Returns None, v', evs)"
  let ?r = "run (walkFn parse v) (entries (path v) (fs (path v))) (Some (template_New ''all''), [])"
  show ?thesis
  proof (cases ?r)
    case (Panics f)
    with a show ?thesis by (simp add: ParseTemplates_run)
  next
    case (Returns x)
    obtain r t' evs' where x: "x = (r, t', evs')" by (cases x)
    from run_walkFn_inv [OF Returns [unfolded x]] have "r = None \<longrightarrow> t' \<noteq> None" by blast
    with a Returns x show ?thesis
      by (cases r) (auto simp add: ParseTemplates_run)
  qed
qed

text \<open>
  Claim C6. The \<open>Views\<close> value that \<open>NewViews\<close> returns has a non-nil \<open>tmpls\<close>; from a
  value with a non-nil \<open>tmpls\<close>, \<open>ParseTemplates\<close>, \<open>ExecuteTemplate\<close>, \<open>Execute\<close> and
  \<open>Reload\<close> all lead to a value with a non-nil \<open>tmpls\<close>, whether they succeed, fail or
  panic; and \<open>NewViews\<close> returns an error exactly when its compile pass returns one.
\<close>

theorem C6_installed_collection_never_nil:
  "(NewViews parse fs p x r = (Returns (Inr v0), evs0) \<longrightarrow> tmpls v0 \<noteq> None)
   \<and> (tmpls v \<noteq> None \<longrightarrow>
          tmpls (fst (snd (ParseTemplates parse fs v))) \<noteq> None
        \<and> tmpls (fst (snd (ExecuteTemplate parse exec fs v w nm d))) \<noteq> None
        \<and> tmpls (fst (snd (Execute parse exec fs v w d))) \<noteq> None
        \<and> tmpls (fst (Reload v f)) \<noteq> None)
   \<and> ((\<exists>e. fst (NewViews parse fs p x r) = Returns (Inl e))
        = (\<exists>e. fst (ParseTemplates parse fs \<lparr>reload = r, path = p, tmplExt = x, tmpls = None\<rparr>)
                 = Returns (Some e)))"
proof (intro conjI impI)
  assume "NewViews parse fs p x r = (Returns (Inr v0), evs0)"
  then have "ParseTemplates parse fs \<lparr>reload = r, path = p, tmplExt = x, tmpls = None\<rparr>
               = (Returns None, v0, evs0)"
    by (auto simp: NewViews_def split: prod.splits outcome.splits option.splits)
  then show "tmpls v0 \<noteq> None" by (rule ParseTemplates_success_installs)
next
  assume nn: "tmpls v \<noteq> None"
  then show pt: "tmpls (fst (snd (ParseTemplates parse fs v))) \<noteq> None"
    by (rule ParseTemplates_tmpls_kept)
  from nn pt show "tmpls (fst (snd (ExecuteTemplate parse exec fs v w nm d))) \<noteq> None"
    by (auto simp: ExecuteTemplate_def split: prod.splits outcome.splits option.splits)
  from nn pt show "tmpls (fst (snd (Execute parse exec fs v w d))) \<noteq> None"
    by (auto simp: Execute_def split: prod.splits outcome.splits option.splits)
  from nn show "tmpls (fst (Reload v f)) \<noteq> None"
    by (simp add: Reload_def)
next
  show "(\<exists>e. fst (NewViews parse fs p x r) = Returns (Inl e))
        = (\<exists>e. fst (ParseTemplates parse fs \<lparr>reload = r, path = p, tmplExt = x, tmpls = None\<rparr>)
                 = Returns (Some e))"
    by (auto simp: NewViews_def split: prod.splits outcome.splits option.splits)
qed

text \<open>
  C6 at concrete inputs: a construction that succeeds, and operations on a value with an
  installed collection over a tree whose template no longer parses.
\<close>

theorem C6_witness:
  "NewViews example_parse (tree_at ''t'' (Dir [(''a.tmpl'', File (Inr ''A''))])) ''t'' ''.tmpl'' False
   = (Returns (Inr \<lparr>reload = False, path = ''t'', tmplExt = ''.tmpl'',
                     tmpls = Some \<lparr>tname = ''a'', tset = [''all'' \<mapsto> None, ''a'' \<mapsto> Some ''A'']\<rparr>\<rparr>),
      [ReadFileCall ''t/a.tmpl'', ParseCall ''a'', Lock, StoreTmpls, Unlock])
   \<and> tmpls (example_views ''t'' ''.tmpl'') \<noteq> None
   \<and> tmpls (fst (snd (ParseTemplates example_parse
              (tree_at ''t'' (Dir [(''a.tmpl'', File (Inr ''{{''))]))
              (example_views ''t'' ''.tmpl'')))) \<noteq> None
   \<and> tmpls (fst (snd (ExecuteTemplate example_parse example_exec
              (tree_at ''t'' (Dir [(''a.tmpl'', File (Inr ''{{''))]))
              (example_views ''t'' ''.tmpl'') ''out'' ''a'' ''d''))) \<noteq> None
   \<and> tmpls (fst (Reload (example_views ''t'' ''.tmpl'') True)) \<noteq> None"
proof -
  have nv: "NewViews example_parse (tree_at ''t'' (Dir [(''a.tmpl'', File (Inr ''A''))]))
              ''t'' ''.tmpl'' False
   = (Returns (Inr \<lparr>reload = False, path = ''t'', tmplExt = ''.tmpl'',
                     tmpls = Some \<lparr>tname = ''a'', tset = [''all'' \<mapsto> None, ''a'' \<mapsto> Some ''A'']\<rparr>\<rparr>),
      [ReadFileCall ''t/a.tmpl'', ParseCall ''a'', Lock, StoreTmpls, Unlock])"
    by (simp add: NewViews_def eval_defs)
  have nn: "tmpls (example_views ''t'' ''.tmpl'') \<noteq> None"
    by (simp add: example_views_def)
  from C6_installed_collection_never_nil
    [of example_parse "tree_at ''t'' (Dir [(''a.tmpl'', File (Inr ''{{''))])" "''t''" "''.tmpl''"
        False _ _ "example_views ''t'' ''.tmpl''" example_exec "''out''" "''a''" "''d''" True]
    nv nn
  show ?thesis by blast
qed

text \<open>
  Claim C8. With the reload flag false, \<open>ExecuteTemplate\<close> and \<open>Execute\<close> leave the
  \<open>Views\<close> value as it is, and their whole result (error, writer contents, events) is the
  same for every file tree and every parser: it depends on the installed collection only.
\<close>

theorem C8_render_without_reload_changes_nothing:
  "\<not> reload v \<Longrightarrow>
     fst (snd (ExecuteTemplate parse exec fs v w nm d)) = v
   \<and> fst (snd (Execute parse exec fs v w d)) = v
   \<and> ExecuteTemplate parse exec fs v w nm d = ExecuteTemplate parse' exec fs' v w nm d
   \<and> Execute parse exec fs v w d = Execute parse' exec fs' v w d"
  by (auto simp: ExecuteTemplate_def Execute_def split: prod.splits outcome.splits option.splits)

text \<open>C8 at a concrete value: the same render before and after the file is edited.\<close>

theorem C8_witness:
  "\<not> reload (example_views ''t'' ''.tmpl'')
   \<and> fst (snd (ExecuteTemplate example_parse example_exec
        (tree_at ''t'' (Dir [(''a.tmpl'', File (Inr ''A''))]))
        (example_views ''t'' ''.tmpl'') ''out'' ''previous'' ''d'')) = example_views ''t'' ''.tmpl''
   \<and> ExecuteTemplate example_parse example_exec
        (tree_at ''t'' (Dir [(''a.tmpl'', File (Inr ''A''))]))
        (example_views ''t'' ''.tmpl'') ''out'' ''previous'' ''d''
     = ExecuteTemplate example_parse example_exec
        (tree_at ''t'' (Dir [(''a.tmpl'', File (Inr ''edited''))]))
        (example_views ''t'' ''.tmpl'') ''out'' ''previous'' ''d''"
proof -
  have nr: "\<not> reload (example_views ''t'' ''.tmpl'')"
    by (simp add: example_views_def)
  from C8_render_without_reload_changes_nothing
    [OF nr, of example_parse example_exec "tree_at ''t'' (Dir [(''a.tmpl'', File (Inr ''A''))])"
        "''out''" "''previous''" "''d''" example_parse
        "tree_at ''t'' (Dir [(''a.tmpl'', File (Inr ''edited''))])"]
    nr
  show ?thesis by blast
qed

section \<open>The mutex\<close>

text \<open>
  Claim C5 says that every render takes the mutex to read the reload flag. Neither
  \<open>ExecuteTemplate\<close> nor \<open>Execute\<close> contains a \<open>Lock\<close> call: a render with the flag false
  reads \<open>v.reload\<close> and \<open>v.tmpls\<close> and never locks, while \<open>Reload\<close> and \<open>ParseTemplates\<close>
  write the same fields under the lock.
\<close>

theorem C5_render_never_locks:
  "Lock \<notin> set (snd (snd (snd (ExecuteTemplate parse exec fs (v\<lparr>reload := False\<rparr>) w nm d))))
   \<and> Lock \<notin> set (snd (snd (snd (Execute parse exec fs (v\<lparr>reload := False\<rparr>) w d))))"
  by (auto simp: ExecuteTemplate_def Execute_def split: prod.splits outcome.splits option.splits)

section \<open>The slice in TemplateName\<close>

text \<open>
  Claim C9 says the slice in \<open>TemplateName\<close> stays in bounds for every path the walk
  hands to it, the root path being such a file included. When the root path is itself a
  file \<open>a.tmpl\<close> and the extension is \<open>.tmpl\<close>, the trimmed root is the whole path, nothing
  remains after its removal, and the slice bound is negative: the pass panics.
\<close>

theorem C9_root_file_slice_out_of_range:
  "\<not> IsDir (File (Inr ''x'')) \<and> Ext ''a.tmpl'' = ''.tmpl''
   \<and> TemplateName (example_views ''a.tmpl'' ''.tmpl'') ''a.tmpl'' = Panics SliceBoundsOutOfRange
   \<and> ParseTemplates example_parse (tree_at ''a.tmpl'' (File (Inr ''x'')))
        (example_views ''a.tmpl'' ''.tmpl'')
      = (Panics SliceBoundsOutOfRange, example_views ''a.tmpl'' ''.tmpl'', [])"
  by (simp add: eval_defs)

section \<open>What a successful pass reads and installs\<close>

lemma install_Nil: "install m [] = m"
  by (simp add: install_def)

lemma install_Cons: "install m ((nm, body) # srcs) = install (m(nm \<mapsto> Some body)) srcs"
  by (simp add: install_def)




lemma sources_Cons:
  "sources parse v (pn # es) =
     (case source_of parse v pn of None \<Rightarrow> sources parse v es | Some x \<Rightarrow> x # sources parse v es)"
  by (simp add: sources_def map_filter_simps split: option.splits)

lemma run_ok:
  "list_all (entry_ok parse v) es \<Longrightarrow>
     \<exists>t'. run (walkFn parse v) es (Some t, evs)
            = Returns (None, Some t', evs @ concat (map (entry_events v) es))
          \<and> tset t' = install (tset t) (sources parse v es)"
proof (induction es arbitrary: t evs)
  case Nil
  then show ?case by (simp add: sources_def map_filter_simps install_Nil)
next
  case (Cons pn es)
  obtain p n where pn: "pn = (p, n)" by (cases pn)
  from Cons.prems have ok: "entry_ok parse v (p, n)" and rest: "list_all (entry_ok parse v) es"
    by (simp_all add: pn)
  show ?case
  proof (cases "\<not> IsDir n \<and> Ext p = tmplExt v")
    case False
    with ok have step: "walkFn parse v p (info_of n) (err_of n) (Some t, evs) = Returns (None, Some t, evs)"
      by (cases n) (auto simp: walkFn_node)
    from False have src: "source_of parse v (p, n) = None" by auto
    from False have ev: "entry_events v (p, n) = []" by auto
    from Cons.IH [OF rest, of t evs] show ?thesis
      by (simp add: pn step sources_Cons src ev del: source_of.simps entry_events.simps)
  next
    case True
    with ok obtain c where n: "n = File c" by (cases n) auto
    from True ok n obtain b nm body where c: "c = Inr b" and nm: "TemplateName v p = Returns nm"
      and body: "parse b = Inr body"
      by (auto split: sum.splits outcome.splits)
    let ?t = "\<lparr>tname = nm, tset = (tset t)(nm \<mapsto> Some body)\<rparr>"
    from True n c nm body
    have step: "walkFn parse v p (info_of n) (err_of n) (Some t, evs)
                  = Returns (None, Some ?t, evs @ [ReadFileCall p, ParseCall nm])"
      by (simp add: walkFn_node)
    from True n c nm body have src: "source_of parse v (p, n) = Some (nm, body)" by simp
    from True nm have ev: "entry_events v (p, n) = [ReadFileCall p, ParseCall nm]" by simp
    from Cons.IH [OF rest, of ?t "evs @ [ReadFileCall p, ParseCall nm]"]
    obtain t' where r: "run (walkFn parse v) es (Some ?t, evs @ [ReadFileCall p, ParseCall nm])
            = Returns (None, Some t',
                (evs @ [ReadFileCall p, ParseCall nm]) @ concat (map (entry_events v) es))"
      and ts: "tset t' = install (tset ?t) (sources parse v es)"
      by blast
    have "tset ?t = (tset t)(nm \<mapsto> Some body)" by simp
    with ts have ts': "tset t' = install (tset t) ((nm, body) # sources parse v es)"
      by (simp only: install_Cons)
    have "run (walkFn parse v) (pn # es) (Some t, evs)
            = Returns (None, Some t', evs @ concat (map (entry_events v) (pn # es)))"
      using r by (simp add: pn step ev del: entry_events.simps)
    moreover have "sources parse v (pn # es) = (nm, body) # sources parse v es"
      by (simp add: pn sources_Cons src del: source_of.simps)
    ultimately show ?thesis using ts' by simp
  qed
qed

lemma run_success_ok:
  "run (walkFn parse v) es (Some t, evs) = Returns (None, t', evs') \<Longrightarrow>
     list_all (entry_ok parse v) es"
proof (induction es arbitrary: t evs)
  case Nil
  then show ?case by simp
next
  case (Cons pn es)
  obtain p n where pn: "pn = (p, n)" by (cases pn)
  show ?case
  proof (cases "\<not> IsDir n \<and> Ext p = tmplExt v")
    case False
    show ?thesis
    proof (cases n)
      case (Absent e)
      with Cons.prems pn show ?thesis by (simp add: walkFn_node)
    next
      case (DirNoList e)
      with Cons.prems pn show ?thesis by (simp add: walkFn_node)
    next
      case (Dir cs)
      with Cons.prems pn have "run (walkFn parse v) es (Some t, evs) = Returns (None, t', evs')"
        by (simp add: walkFn_node)
      from Cons.IH [OF this] Dir pn show ?thesis by simp
    next
      case (File c)
      with False have ne: "Ext p \<noteq> tmplExt v" by simp
      with Cons.prems pn File have "run (walkFn parse v) es (Some t, evs) = Returns (None, t', evs')"
        by (simp add: walkFn_node)
      from Cons.IH [OF this] File pn ne show ?thesis by simp
    qed
  next
    case True
    with Cons.prems pn obtain c where n: "n = File c"
      by (cases n) (auto simp: walkFn_node)
    from True have m: "Ext p = tmplExt v" by simp
    show ?thesis
    proof (cases c)
      case (Inl e)
      with Cons.prems pn n m show ?thesis by (simp add: walkFn_node)
    next
      case (Inr b)
      show ?thesis
      proof (cases "TemplateName v p")
        case (Panics f)
        with Cons.prems pn n m Inr show ?thesis by (simp add: walkFn_node)
      next
        case (Returns nm)
        show ?thesis
        proof (cases "parse b")
          case (Inl e)
          with Cons.prems pn n m Inr Returns show ?thesis by (simp add: walkFn_node)
        next
          case body: (Inr body)
          with Cons.prems pn n m Inr Returns
          have "run (walkFn parse v) es
                  (Some \<lparr>tname = nm, tset = (tset t)(nm \<mapsto> Some body)\<rparr>,
                   evs @ [ReadFileCall p, ParseCall nm]) = Returns (None, t', evs')"
            by (simp add: walkFn_node)
          from Cons.IH [OF this] pn n m Inr Returns body show ?thesis by simp
        qed
      qed
    qed
  qed
qed

lemma ext_scan_dot:
  "CHR ''.'' \<notin> set a \<Longrightarrow> CHR ''/'' \<notin> set a \<Longrightarrow>
     ext_scan (a @ CHR ''.'' # r) acc = CHR ''.'' # rev a @ acc"
  by (induction a arbitrary: acc) auto

lemma ext_scan_suffix:
  "ext_scan r acc \<noteq> [] \<Longrightarrow> suffix (ext_scan r acc) (rev r @ acc)"
proof (induction r arbitrary: acc)
  case Nil
  then show ?case by simp
next
  case (Cons c r)
  show ?case
  proof (cases "c = CHR ''/''")
    case True
    with Cons.prems show ?thesis by simp
  next
    case False
    show ?thesis
    proof (cases "c = CHR ''.''")
      case True
      then show ?thesis by (simp add: suffix_def)
    next
      case nd: False
      with False Cons.prems have "ext_scan r (c # acc) \<noteq> []" by simp
      from Cons.IH [OF this] False nd show ?thesis by simp
    qed
  qed
qed

lemma Ext_suffix: "Ext p \<noteq> [] \<Longrightarrow> suffix (Ext p) p"
  using ext_scan_suffix [of "rev p" "[]"] by (simp add: Ext_def)

lemma Ext_iff_suffix:
  assumes "CHR ''.'' \<notin> set x" and "CHR ''/'' \<notin> set x"
  shows "(Ext p = CHR ''.'' # x) = suffix (CHR ''.'' # x) p"
proof
  assume "Ext p = CHR ''.'' # x"
  then show "suffix (CHR ''.'' # x) p"
    using Ext_suffix [of p] by simp
next
  assume "suffix (CHR ''.'' # x) p"
  then obtain q where p: "p = q @ CHR ''.'' # x" by (auto simp: suffix_def)
  have "ext_scan (rev x @ CHR ''.'' # rev q) [] = CHR ''.'' # rev (rev x) @ []"
    using assms by (intro ext_scan_dot) simp_all
  then show "Ext p = CHR ''.'' # x" by (simp add: Ext_def p)
qed

lemma ParseTemplates_success_events:
  assumes "ParseTemplates parse fs v = (Returns None, v', evs)"
  shows "evs = concat (map (entry_events v) (entries (path v) (fs (path v))))
               @ [Lock, StoreTmpls, Unlock]"
proof -
  let ?es = "entries (path v) (fs (path v))"
  let ?t0 = "template_New ''all'' :: 'a template"
  from assms obtain t1 evs1 where r: "run (walkFn parse v) ?es (Some ?t0, []) = Returns (None, t1, evs1)"
    and e: "evs = evs1 @ [Lock, StoreTmpls, Unlock]"
    by (auto simp: ParseTemplates_run split: outcome.splits option.splits prod.splits)
  from run_success_ok [OF r] have "list_all (entry_ok parse v) ?es" .
  from run_ok [OF this, of ?t0 "[]"] r have "evs1 = concat (map (entry_events v) ?es)"
    by auto
  with e show ?thesis by simp
qed

text \<open>
  Claim C7, as the specification states it, selects files by exact suffix match with the
  extension string, for every extension. The code compares \<open>filepath.Ext\<close> of the path
  with the extension, and \<open>filepath.Ext\<close> starts at the last dot of the last element:
  with the extension \<open>.tar.gz\<close> the file \<open>t/a.tar.gz\<close> ends with the extension and is not
  read, and likewise \<open>t/a.tmpl\<close> with the extension \<open>tmpl\<close>; both passes succeed with an
  empty collection.
\<close>

theorem C7_counterexample:
  "suffix ''.tar.gz'' ''t/a.tar.gz''
   \<and> ParseTemplates example_parse (tree_at ''t'' (Dir [(''a.tar.gz'', File (Inr ''A''))]))
        (example_views ''t'' ''.tar.gz'')
      = (Returns None, (example_views ''t'' ''.tar.gz'')\<lparr>tmpls := Some (template_New ''all'')\<rparr>,
         [Lock, StoreTmpls, Unlock])
   \<and> suffix ''tmpl'' ''t/a.tmpl''
   \<and> ParseTemplates example_parse (tree_at ''t'' (Dir [(''a.tmpl'', File (Inr ''A''))]))
        (example_views ''t'' ''tmpl'')
      = (Returns None, (example_views ''t'' ''tmpl'')\<lparr>tmpls := Some (template_New ''all'')\<rparr>,
         [Lock, StoreTmpls, Unlock])"
  by (simp add: eval_defs suffix_def)

text \<open>
  Claim C7, amended. A compile pass that succeeds has read and parsed, in walk order,
  exactly the entries under the root that are not directories and whose \<open>filepath.Ext\<close>
  equals the extension string, and has done nothing else before the final store: no
  read, no parse and no log line for any other entry. For an extension that is a dot
  followed by characters other than dot and slash, \<open>filepath.Ext\<close> of a path equals the
  extension exactly when the path ends with it.
\<close>

theorem C7_sources_are_the_entries_with_equal_Ext:
  "(ParseTemplates parse fs v = (Returns None, v', evs) \<longrightarrow>
      evs = concat (map (entry_events v) (entries (path v) (fs (path v))))
            @ [Lock, StoreTmpls, Unlock])
   \<and> (CHR ''.'' \<notin> set x \<and> CHR ''/'' \<notin> set x \<longrightarrow>
        (Ext p = CHR ''.'' # x) = suffix (CHR ''.'' # x) p)"
  using ParseTemplates_success_events Ext_iff_suffix by blast

text \<open>
  The amended C7 on a tree with a subdirectory, two matching files, a file with another
  extension and a file whose whole name is the extension without its dot.
\<close>

theorem C7_witness:
  "fst (ParseTemplates example_parse
          (tree_at ''t'' (Dir [(''sub'', Dir [(''x.tmpl'', File (Inr ''X'')), (''y.txt'', File (Inr ''Y''))]),
                               (''a.tmpl'', File (Inr ''A'')),
                               (''tmpl'', File (Inr ''T''))]))
          (example_views ''t'' ''.tmpl'')) = Returns None
   \<and> snd (snd (ParseTemplates example_parse
          (tree_at ''t'' (Dir [(''sub'', Dir [(''x.tmpl'', File (Inr ''X'')), (''y.txt'', File (Inr ''Y''))]),
                               (''a.tmpl'', File (Inr ''A'')),
                               (''tmpl'', File (Inr ''T''))]))
          (example_views ''t'' ''.tmpl'')))
      = [ReadFileCall ''t/a.tmpl'', ParseCall ''a'', ReadFileCall ''t/sub/x.tmpl'', ParseCall ''sub/x'',
         Lock, StoreTmpls, Unlock]
   \<and> Ext ''t/a.tmpl'' = ''.tmpl'' \<and> suffix ''.tmpl'' ''t/a.tmpl''"
proof -
  let ?root = "Dir [(''sub'', Dir [(''x.tmpl'', File (Inr ''X'')), (''y.txt'', File (Inr ''Y''))]),
                    (''a.tmpl'', File (Inr ''A'')),
                    (''tmpl'', File (Inr ''T''))]"
  let ?fs = "tree_at ''t'' ?root"
  let ?v = "example_views ''t'' ''.tmpl''"
  let ?X = "ParseTemplates example_parse ?fs ?v"
  have ok: "fst ?X = Returns None"
    by (simp add: eval_defs)
  then have hyp: "?X = (Returns None, fst (snd ?X), snd (snd ?X))"
    by (metis prod.collapse)
  have ents: "concat (map (entry_events ?v) (entries (path ?v) (?fs (path ?v))))
      = [ReadFileCall ''t/a.tmpl'', ParseCall ''a'', ReadFileCall ''t/sub/x.tmpl'', ParseCall ''sub/x'']"
    by (simp add: tree_at_def example_views_def Join_def Clean_def clean_step_def Ext_def
        TemplateName_def Trim_def TrimRight_def Replace1_def)
  have dots: "CHR ''.'' \<notin> set ''tmpl'' \<and> CHR ''/'' \<notin> set ''tmpl''" by simp
  have sfx: "suffix ''.tmpl'' ''t/a.tmpl''" by (simp add: suffix_def)
  from C7_sources_are_the_entries_with_equal_Ext
    [of example_parse ?fs ?v "fst (snd ?X)" "snd (snd ?X)" "''tmpl''" "''t/a.tmpl''"]
    hyp ents dots sfx ok
  show ?thesis by simp
qed



end
